theory Spec2Isabelle
  imports Main "HOL-Library.Word"
begin

unbundle bit_operations_syntax

section \<open>The HEVC fast-join cache of \<^verbatim>\<open>media/cache/hevccache.go\<close>\<close>

subsection \<open>Data model\<close>

type_synonym byte = "8 word"

text \<open>
  The constants the source takes from the packages \<^verbatim>\<open>hevc\<close> and \<^verbatim>\<open>rtp\<close>, which lie
  outside this repository. They are a parameter of every function below; each is
  compared with a Go \<^verbatim>\<open>byte\<close>.
\<close>

record codes =
  NalBlaWLp :: byte
  NalCraNut :: byte
  NalVps :: byte
  NalSps :: byte
  NalPps :: byte
  NalStapInRtp :: byte
  NalFuInRtp :: byte
  ChannelVideo :: byte

text \<open>
  The NAL unit type codes of ITU-T H.265 (table 7-1), the two payload structures of
  RFC 7798 (aggregation packet 48, fragmentation unit 49) and channel 0 for video.
  Used only to instantiate the general theorems at concrete packets.
\<close>

definition hevc_std :: codes where
  "hevc_std = \<lparr>NalBlaWLp = 16, NalCraNut = 21, NalVps = 32, NalSps = 33, NalPps = 34,
               NalStapInRtp = 48, NalFuInRtp = 49, ChannelVideo = 0\<rparr>"

text \<open>
  What the specification says about the codes: the three parameter-set codes are
  distinct single values outside the closed keyframe range, and the two wrapper codes
  differ (Go rejects a \<^verbatim>\<open>switch\<close> with duplicate constant cases).
\<close>

definition codes_ok :: "codes \<Rightarrow> bool" where
  "codes_ok K \<longleftrightarrow>
     NalVps K \<noteq> NalSps K \<and> NalVps K \<noteq> NalPps K \<and> NalSps K \<noteq> NalPps K \<and>
     \<not> (NalBlaWLp K \<le> NalVps K \<and> NalVps K \<le> NalCraNut K) \<and>
     \<not> (NalBlaWLp K \<le> NalSps K \<and> NalSps K \<le> NalCraNut K) \<and>
     \<not> (NalBlaWLp K \<le> NalPps K \<and> NalPps K \<le> NalCraNut K) \<and>
     NalStapInRtp K \<noteq> NalFuInRtp K"

text \<open>
  \<^verbatim>\<open>rtp.Packet\<close> is used through its field \<^verbatim>\<open>Channel\<close> and its methods
  \<^verbatim>\<open>Payload()\<close> and \<^verbatim>\<open>Size()\<close> only; a packet is never modified by the cache.
\<close>

record packet =
  Channel :: byte
  Payload :: "byte list"
  Size :: int

text \<open>
  \<^verbatim>\<open>HevcCache\<close>: the lock is left out (every operation runs to its end under it), the
  queue \<^verbatim>\<open>gop\<close> is the list of its elements, oldest first, and a \<^verbatim>\<open>nil\<close> packet
  pointer is \<open>None\<close>.
\<close>

record HevcCache =
  cacheGop :: bool
  gop :: "packet list"
  vps :: "packet option"
  sps :: "packet option"
  pps :: "packet option"

datatype error = IndexOutOfRange

text \<open>The four results \<^verbatim>\<open>(vps, sps, pps, islice)\<close> of the classification.\<close>

type_synonym flags = "bool \<times> bool \<times> bool \<times> bool"

subsection \<open>Operations\<close>

definition NewHevcCache :: "bool \<Rightarrow> HevcCache" where
  "NewHevcCache b = \<lparr>cacheGop = b, gop = [], vps = None, sps = None, pps = None\<rparr>"

definition nalType :: "codes \<Rightarrow> byte \<Rightarrow> flags \<Rightarrow> flags" where
  "nalType K t f =
     (case f of (v, s, p, i) \<Rightarrow>
        if NalBlaWLp K \<le> t \<and> t \<le> NalCraNut K then (v, s, p, True)
        else if t = NalVps K then (True, s, p, i)
        else if t = NalSps K then (v, True, p, i)
        else if t = NalPps K then (v, s, True, i)
        else (v, s, p, i))"

text \<open>\<^verbatim>\<open>(b >> 1) & 0x3f\<close>, the type field of a NAL unit header byte.\<close>

definition hdr_type :: "byte \<Rightarrow> byte" where
  "hdr_type b = drop_bit 1 b AND 0x3f"

text \<open>\<^verbatim>\<open>(uint16(hi) << 8) | uint16(lo)\<close>\<close>

definition be16 :: "byte \<Rightarrow> byte \<Rightarrow> 16 word" where
  "be16 hi lo = push_bit 8 (ucast hi) OR ucast lo"

text \<open>
  The \<^verbatim>\<open>for\<close> loop of the aggregation case, entered with \<^verbatim>\<open>off\<close> and the flags set
  so far. Every index expression of the source panics out of range; the loop has no
  check before \<^verbatim>\<open>payload[off]\<close>, \<^verbatim>\<open>payload[off+1]\<close> and the second \<^verbatim>\<open>payload[off]\<close>.
\<close>

function stap_loop :: "codes \<Rightarrow> byte list \<Rightarrow> nat \<Rightarrow> flags \<Rightarrow> error + flags" where
  "stap_loop K payload off f =
     (if \<not> off + 1 < length payload then Inl IndexOutOfRange
      else if be16 (payload ! off) (payload ! (off + 1)) < 1 then Inr f
      else if \<not> off + 2 < length payload then Inl IndexOutOfRange
      else if off + 2 + unat (be16 (payload ! off) (payload ! (off + 1))) \<ge> length payload
        then Inr (nalType K (hdr_type (payload ! (off + 2))) f)
      else stap_loop K payload (off + 2 + unat (be16 (payload ! off) (payload ! (off + 1))))
             (nalType K (hdr_type (payload ! (off + 2))) f))"
  by pat_completeness auto
termination
  by (relation "measure (\<lambda>(K, payload, off, f). length payload - off)") auto

definition getPalyloadType :: "codes \<Rightarrow> byte list \<Rightarrow> error + flags" where
  "getPalyloadType K payload =
     (if length payload < 3 then Inr (False, False, False, False)
      else if hdr_type (payload ! 0) = NalStapInRtp K
        then stap_loop K payload 2 (False, False, False, False)
      else if hdr_type (payload ! 0) = NalFuInRtp K
        then (if drop_bit 7 (payload ! 2) AND 1 = 1
              then Inr (nalType K (payload ! 2 AND 0x3f) (False, False, False, False))
              else Inr (False, False, False, False))
      else Inr (nalType K (hdr_type (payload ! 0)) (False, False, False, False)))"

text \<open>
  \<^verbatim>\<open>CachePack\<close> returns the new cache and the boolean result, or the panic of the
  classification, which runs before the cache is written. Its argument is the
  \<^verbatim>\<open>*rtp.Packet\<close> behind the interface value \<^verbatim>\<open>pack\<close>.
\<close>

definition CachePack :: "codes \<Rightarrow> HevcCache \<Rightarrow> packet \<Rightarrow> error + (HevcCache \<times> bool)" where
  "CachePack K cache rtppack =
     (if Channel rtppack \<noteq> ChannelVideo K then Inr (cache, False)
      else case getPalyloadType K (Payload rtppack) of
        Inl e \<Rightarrow> Inl e
      | Inr (v, s, p, islice) \<Rightarrow>
          if v then Inr (cache\<lparr>vps := Some rtppack\<rparr>, False)
          else if s then Inr (cache\<lparr>sps := Some rtppack\<rparr>, False)
          else if p then Inr (cache\<lparr>pps := Some rtppack\<rparr>, False)
          else Inr (if cacheGop cache
                    then (if islice then cache\<lparr>gop := [] @ [rtppack]\<rparr>
                          else if length (gop cache) > 0
                            then cache\<lparr>gop := gop cache @ [rtppack]\<rparr>
                          else cache)
                    else cache, islice))"

definition Reset :: "HevcCache \<Rightarrow> HevcCache" where
  "Reset cache = cache\<lparr>vps := None, sps := None, pps := None, gop := []\<rparr>"


subsection \<open>Sequences of calls\<close>

text \<open>
  The cache is driven by calls of \<^verbatim>\<open>CachePack\<close> and \<^verbatim>\<open>Reset\<close>. A call of
  \<^verbatim>\<open>CachePack\<close> that panics does so in the classification, before the first write,
  and leaves the cache as it was.
\<close>

datatype call = Ingest packet | ResetCall

fun apply_call :: "codes \<Rightarrow> HevcCache \<Rightarrow> call \<Rightarrow> HevcCache" where
  "apply_call K c (Ingest p) = (case CachePack K c p of Inl e \<Rightarrow> c | Inr (c', r) \<Rightarrow> c')"
| "apply_call K c ResetCall = Reset c"

definition exec :: "codes \<Rightarrow> HevcCache \<Rightarrow> call list \<Rightarrow> HevcCache" where
  "exec K c calls = foldl (apply_call K) c calls"

fun ingested :: "call list \<Rightarrow> packet list" where
  "ingested [] = []"
| "ingested (Ingest p # cs) = p # ingested cs"
| "ingested (ResetCall # cs) = ingested cs"

subsection \<open>Vocabulary of the specification\<close>

text \<open>A unit type in the closed keyframe range.\<close>

definition keyframe_type :: "codes \<Rightarrow> byte \<Rightarrow> bool" where
  "keyframe_type K t \<longleftrightarrow> NalBlaWLp K \<le> t \<and> t \<le> NalCraNut K"

text \<open>
  A video packet that \<^verbatim>\<open>CachePack\<close> classifies as a parameter set; one for which
  it answers \<open>true\<close> (a keyframe); and one it treats as a plain non-keyframe packet.
\<close>

definition param_packet :: "codes \<Rightarrow> packet \<Rightarrow> bool" where
  "param_packet K p \<longleftrightarrow> Channel p = ChannelVideo K \<and>
     (case getPalyloadType K (Payload p) of Inl e \<Rightarrow> False | Inr (v, s, pp, i) \<Rightarrow> v \<or> s \<or> pp)"

definition keyframe_packet :: "codes \<Rightarrow> packet \<Rightarrow> bool" where
  "keyframe_packet K p \<longleftrightarrow> Channel p = ChannelVideo K \<and>
     getPalyloadType K (Payload p) = Inr (False, False, False, True)"

definition plain_packet :: "codes \<Rightarrow> packet \<Rightarrow> bool" where
  "plain_packet K p \<longleftrightarrow> Channel p = ChannelVideo K \<and>
     getPalyloadType K (Payload p) = Inr (False, False, False, False)"

definition opt_list :: "'a option \<Rightarrow> 'a list" where
  "opt_list x = (case x of None \<Rightarrow> [] | Some p \<Rightarrow> [p])"

text \<open>
  An aggregation payload as the specification describes it: after the two header
  bytes, units back to back, each behind its length as two bytes, high byte first.
\<close>

definition len16 :: "nat \<Rightarrow> byte list" where
  "len16 n = [ucast (drop_bit 8 (word_of_nat n :: 16 word)), ucast (word_of_nat n :: 16 word)]"

fun ap_units :: "byte list list \<Rightarrow> byte list" where
  "ap_units [] = []"
| "ap_units (u # us) = len16 (length u) @ u @ ap_units us"

definition unit_ok :: "byte list \<Rightarrow> bool" where
  "unit_ok u \<longleftrightarrow> 0 < length u \<and> length u < 65536"

definition unit_type :: "byte list \<Rightarrow> byte" where
  "unit_type u = hdr_type (u ! 0)"

text \<open>
  The history of a non-empty buffer: it starts with the packet of the last call that
  was answered \<open>true\<close>, no \<^verbatim>\<open>Reset\<close> and no further keyframe came after it, and
  behind it stand the plain video packets ingested since, in arrival order.
\<close>

definition gop_history :: "codes \<Rightarrow> call list \<Rightarrow> packet list \<Rightarrow> bool" where
  "gop_history K calls g \<longleftrightarrow>
     g = [] \<or>
     (\<exists>pre k post. calls = pre @ Ingest k # post \<and> keyframe_packet K k \<and>
        ResetCall \<notin> set post \<and> (\<forall>q\<in>set (ingested post). \<not> keyframe_packet K q) \<and>
        g = k # filter (plain_packet K) (ingested post))"

definition cache_inv :: "codes \<Rightarrow> bool \<Rightarrow> call list \<Rightarrow> HevcCache \<Rightarrow> bool" where
  "cache_inv K b cs c \<longleftrightarrow>
     cacheGop c = b \<and> (\<not> b \<longrightarrow> gop c = []) \<and> gop_history K cs (gop c) \<and>
     (\<forall>q\<in>set (gop c). keyframe_packet K q \<or> plain_packet K q) \<and>
     (\<forall>q\<in>set (opt_list (vps c) @ opt_list (sps c) @ opt_list (pps c)). param_packet K q)"

subsection \<open>Example packets\<close>

text \<open>
  Packets with the standard codes: an IDR slice (type 19), a trailing slice (type 1),
  the three parameter sets (32, 33, 34), a payload of two bytes, a fragmentation unit
  without the start bit, and aggregation packets (type 48).
\<close>

definition ex_idr :: packet where
  "ex_idr = \<lparr>Channel = 0, Payload = [0x26, 0x01, 0xAF], Size = 15\<rparr>"

definition ex_trail :: packet where
  "ex_trail = \<lparr>Channel = 0, Payload = [0x02, 0x01, 0xD0], Size = 15\<rparr>"

definition ex_vps :: packet where
  "ex_vps = \<lparr>Channel = 0, Payload = [0x40, 0x01, 0x0C], Size = 15\<rparr>"

definition ex_sps :: packet where
  "ex_sps = \<lparr>Channel = 0, Payload = [0x42, 0x01, 0x01], Size = 15\<rparr>"

definition ex_pps :: packet where
  "ex_pps = \<lparr>Channel = 0, Payload = [0x44, 0x01, 0xC1], Size = 15\<rparr>"

definition ex_short :: packet where
  "ex_short = \<lparr>Channel = 0, Payload = [0x26, 0x01], Size = 14\<rparr>"

definition ex_fu_cont :: packet where
  "ex_fu_cont = \<lparr>Channel = 0, Payload = [0x62, 0x01, 0x13, 0x55], Size = 16\<rparr>"

definition ex_ap_cut :: packet where
  "ex_ap_cut = \<lparr>Channel = 0, Payload = [0x60, 0x01, 0x00], Size = 15\<rparr>"

definition ex_ap_sps_idr :: packet where
  "ex_ap_sps_idr = \<lparr>Channel = 0,
     Payload = 0x60 # 0x01 # ap_units [[0x42, 0x01, 0x01], [0x26, 0x01, 0xAF]], Size = 24\<rparr>"

definition ex_ap_vps_sps_idr :: packet where
  "ex_ap_vps_sps_idr = \<lparr>Channel = 0,
     Payload = 0x60 # 0x01 # ap_units [[0x40, 0x01, 0x0C], [0x42, 0x01, 0x01], [0x26, 0x01, 0xAF]],
     Size = 29\<rparr>"

definition ex_ap_vps_sps :: packet where
  "ex_ap_vps_sps = \<lparr>Channel = 0,
     Payload = 0x60 # 0x01 # ap_units [[0x40, 0x01, 0x0C], [0x42, 0x01, 0x01]], Size = 24\<rparr>"

section \<open>Auxiliary facts\<close>

declare stap_loop.simps [simp del]

subsection \<open>The scan of an aggregation payload\<close>

lemma be16_len16: "n < 65536 \<Longrightarrow> len16 n = [hi, lo] \<Longrightarrow> unat (be16 hi lo) = n"
proof -
  assume n: "n < 65536" and l: "len16 n = [hi, lo]"
  have "be16 hi lo = (word_of_nat n :: 16 word)"
    using l unfolding be16_def len16_def
    by (auto intro!: bit_word_eqI simp: bit_simps)
  then show ?thesis using n by (simp add: unat_of_nat take_bit_nat_eq_self)
qed

lemma nalType_flags:
  "nalType K t (v, s, p, i) =
     (if keyframe_type K t then (v, s, p, True)
      else (v \<or> t = NalVps K, s \<or> (t \<noteq> NalVps K \<and> t = NalSps K),
            p \<or> (t \<noteq> NalVps K \<and> t \<noteq> NalSps K \<and> t = NalPps K), i))"
  by (auto simp: nalType_def keyframe_type_def)

lemma stap_loop_units:
  assumes "us \<noteq> []" and "\<forall>u\<in>set us. unit_ok u"
  shows "stap_loop K (pre @ ap_units us) (length pre) f =
           Inr (fold (\<lambda>u. nalType K (unit_type u)) us f)"
  using assms
proof (induction us arbitrary: pre f)
  case Nil
  then show ?case by simp
next
  case (Cons u us)
  obtain hi lo where hl: "len16 (length u) = [hi, lo]" by (simp add: len16_def)
  from Cons.prems have ok: "0 < length u" "length u < 65536" by (simp_all add: unit_ok_def)
  have sz: "unat (be16 hi lo) = length u" using be16_len16 [OF ok(2) hl] .
  have nz: "be16 hi lo \<noteq> 0" using sz ok(1) by auto
  define pl where "pl = pre @ hi # lo # u @ ap_units us"
  have pl: "pre @ ap_units (u # us) = pl" by (simp add: hl pl_def)
  have r0: "pl ! length pre = hi" by (simp add: pl_def)
  have r1: "pl ! (length pre + 1) = lo" by (simp add: pl_def nth_append)
  have r2: "pl ! (length pre + 2) = u ! 0" using ok(1) by (simp add: pl_def nth_append)
  have len: "length pl = length pre + 2 + length u + length (ap_units us)" by (simp add: pl_def)
  show ?case
  proof (cases "us = []")
    case True
    then show ?thesis
      unfolding pl using ok sz nz r0 r1 r2 len
      by (subst stap_loop.simps) (simp add: unit_type_def)
  next
    case False
    then obtain v vs where us: "us = v # vs" by (cases us) auto
    have "0 < length (ap_units us)" by (simp add: us len16_def)
    have IH: "stap_loop K ((pre @ hi # lo # u) @ ap_units us) (length (pre @ hi # lo # u)) f' =
           Inr (fold (\<lambda>u. nalType K (unit_type u)) us f')" for f'
      using Cons.IH [OF False, of "pre @ hi # lo # u" f'] Cons.prems(2) by simp
    have step: "stap_loop K pl (length pre) f =
        stap_loop K pl (length pre + 2 + length u) (nalType K (unit_type u) f)"
      using ok sz nz r0 r1 r2 len \<open>0 < length (ap_units us)\<close>
      by (subst stap_loop.simps) (simp add: unit_type_def)
    show ?thesis unfolding pl using step IH [of "nalType K (unit_type u) f"] by (simp add: pl_def)
  qed
qed


lemma nalType_single:
  assumes "codes_ok K"
  shows "nalType K t (False, False, False, False) =
     (t = NalVps K, t = NalSps K, t = NalPps K, keyframe_type K t)"
proof -
  have a: "NalVps K \<noteq> NalSps K" "NalVps K \<noteq> NalPps K" "NalSps K \<noteq> NalPps K"
    "\<not> keyframe_type K (NalVps K)" "\<not> keyframe_type K (NalSps K)" "\<not> keyframe_type K (NalPps K)"
    using assms by (simp_all add: codes_ok_def keyframe_type_def)
  show ?thesis
  proof (cases "keyframe_type K t")
    case True
    then have "t \<noteq> NalVps K" "t \<noteq> NalSps K" "t \<noteq> NalPps K" using a by blast+
    with True show ?thesis by (simp add: nalType_flags)
  next
    case False
    then show ?thesis using a(1-3) by (simp add: nalType_flags) blast
  qed
qed

lemma codes_exclusive:
  assumes "codes_ok K"
  shows "t = NalVps K \<Longrightarrow> t \<noteq> NalSps K \<and> t \<noteq> NalPps K \<and> \<not> keyframe_type K t"
    and "t = NalSps K \<Longrightarrow> t \<noteq> NalVps K \<and> t \<noteq> NalPps K \<and> \<not> keyframe_type K t"
    and "t = NalPps K \<Longrightarrow> t \<noteq> NalVps K \<and> t \<noteq> NalSps K \<and> \<not> keyframe_type K t"
    and "keyframe_type K t \<Longrightarrow> t \<noteq> NalVps K \<and> t \<noteq> NalSps K \<and> t \<noteq> NalPps K"
proof -
  have a: "NalVps K \<noteq> NalSps K" "NalVps K \<noteq> NalPps K" "NalSps K \<noteq> NalPps K"
    "\<not> keyframe_type K (NalVps K)" "\<not> keyframe_type K (NalSps K)" "\<not> keyframe_type K (NalPps K)"
    using assms by (simp_all add: codes_ok_def keyframe_type_def)
  show "t = NalVps K \<Longrightarrow> t \<noteq> NalSps K \<and> t \<noteq> NalPps K \<and> \<not> keyframe_type K t"
    using a by auto
  show "t = NalSps K \<Longrightarrow> t \<noteq> NalVps K \<and> t \<noteq> NalPps K \<and> \<not> keyframe_type K t"
    using a by auto
  show "t = NalPps K \<Longrightarrow> t \<noteq> NalVps K \<and> t \<noteq> NalSps K \<and> \<not> keyframe_type K t"
    using a by auto
  show "keyframe_type K t \<Longrightarrow> t \<noteq> NalVps K \<and> t \<noteq> NalSps K \<and> t \<noteq> NalPps K"
    using a by auto
qed

lemma getPalyloadType_aggregation:
  assumes "hdr_type h0 = NalStapInRtp K" and "us \<noteq> []" and "\<forall>u\<in>set us. unit_ok u"
  shows "getPalyloadType K (h0 # h1 # ap_units us) =
           Inr (fold (\<lambda>u. nalType K (unit_type u)) us (False, False, False, False))"
proof -
  obtain u vs where "us = u # vs" using assms(2) by (cases us) auto
  then have len: "\<not> length (h0 # h1 # ap_units us) < 3" by (simp add: len16_def)
  have "getPalyloadType K (h0 # h1 # ap_units us) =
          stap_loop K ([h0, h1] @ ap_units us) (length [h0, h1]) (False, False, False, False)"
    unfolding getPalyloadType_def using len assms(1) by (simp add: numeral_2_eq_2)
  then show ?thesis unfolding stap_loop_units [OF assms(2,3)] .
qed

subsection \<open>One call of \<^verbatim>\<open>CachePack\<close>\<close>

lemma CachePack_flags:
  assumes "Channel p = ChannelVideo K" and "getPalyloadType K (Payload p) = Inr (v, s, pp, i)"
  shows "CachePack K c p =
     Inr (if v then c\<lparr>vps := Some p\<rparr>
          else if s then c\<lparr>sps := Some p\<rparr>
          else if pp then c\<lparr>pps := Some p\<rparr>
          else if cacheGop c then
            (if i then c\<lparr>gop := [p]\<rparr> else if gop c \<noteq> [] then c\<lparr>gop := gop c @ [p]\<rparr> else c)
          else c,
          \<not> v \<and> \<not> s \<and> \<not> pp \<and> i)"
  using assms by (simp add: CachePack_def)

lemma start_bit: "(drop_bit 7 (b :: byte) AND 1 = 1) \<longleftrightarrow> bit b 7"
  by (simp add: and_one_eq bit_iff_odd_drop_bit mod_2_eq_odd)


subsection \<open>Sequences of calls\<close>

lemma exec_snoc: "exec K c (cs @ [x]) = apply_call K (exec K c cs) x"
  by (simp add: exec_def)

lemma ingested_append: "ingested (xs @ ys) = ingested xs @ ingested ys"
  by (induction xs rule: ingested.induct) simp_all

lemma packet_kinds:
  "keyframe_packet K p \<Longrightarrow> \<not> param_packet K p \<and> \<not> plain_packet K p"
  "plain_packet K p \<Longrightarrow> \<not> param_packet K p \<and> \<not> keyframe_packet K p"
  by (simp_all add: keyframe_packet_def plain_packet_def param_packet_def)

lemma apply_Ingest_cases:
  obtains
    (ignored) "\<not> param_packet K p" "\<not> keyframe_packet K p" "\<not> plain_packet K p"
      "apply_call K c (Ingest p) = c"
  | (param) "param_packet K p"
      "apply_call K c (Ingest p) = c\<lparr>vps := Some p\<rparr> \<or>
       apply_call K c (Ingest p) = c\<lparr>sps := Some p\<rparr> \<or>
       apply_call K c (Ingest p) = c\<lparr>pps := Some p\<rparr>"
  | (key) "keyframe_packet K p"
      "apply_call K c (Ingest p) = (if cacheGop c then c\<lparr>gop := [p]\<rparr> else c)"
  | (plain) "plain_packet K p"
      "apply_call K c (Ingest p) =
         (if cacheGop c \<and> gop c \<noteq> [] then c\<lparr>gop := gop c @ [p]\<rparr> else c)"
proof (cases "Channel p = ChannelVideo K")
  case False
  then have "apply_call K c (Ingest p) = c" by (simp add: CachePack_def)
  with False ignored show ?thesis
    by (simp add: keyframe_packet_def plain_packet_def param_packet_def)
next
  case video: True
  show ?thesis
  proof (cases "getPalyloadType K (Payload p)")
    case (Inl e)
    then have "apply_call K c (Ingest p) = c" using video by (simp add: CachePack_def)
    with Inl ignored show ?thesis
      by (simp add: keyframe_packet_def plain_packet_def param_packet_def)
  next
    case (Inr f)
    obtain v s pp i where f: "f = (v, s, pp, i)" by (metis prod_cases4)
    note g = Inr [unfolded f]
    note cp = CachePack_flags [OF video g, of c]
    show ?thesis
    proof (cases "v \<or> s \<or> pp")
      case True
      then have "param_packet K p" using video g by (simp add: param_packet_def)
      moreover have "apply_call K c (Ingest p) = c\<lparr>vps := Some p\<rparr> \<or>
         apply_call K c (Ingest p) = c\<lparr>sps := Some p\<rparr> \<or>
         apply_call K c (Ingest p) = c\<lparr>pps := Some p\<rparr>"
        using True cp by auto
      ultimately show ?thesis by (rule param)
    next
      case False
      show ?thesis
      proof (cases i)
        case True
        with False have "keyframe_packet K p" using video g by (simp add: keyframe_packet_def)
        moreover have "apply_call K c (Ingest p) = (if cacheGop c then c\<lparr>gop := [p]\<rparr> else c)"
          using True False cp by simp
        ultimately show ?thesis by (rule key)
      next
        case i: False
        with False have "plain_packet K p" using video g by (simp add: plain_packet_def)
        moreover have "apply_call K c (Ingest p) =
            (if cacheGop c \<and> gop c \<noteq> [] then c\<lparr>gop := gop c @ [p]\<rparr> else c)"
          using i False cp by simp
        ultimately show ?thesis by (rule plain)
      qed
    qed
  qed
qed

lemma gop_history_start: "keyframe_packet K k \<Longrightarrow> gop_history K (cs @ [Ingest k]) [k]"
  unfolding gop_history_def
  by (rule disjI2, rule exI [of _ cs], rule exI [of _ k], rule exI [of _ "[]"]) simp

lemma gop_history_skip:
  assumes "gop_history K cs g" and "\<not> keyframe_packet K p" and "\<not> plain_packet K p"
  shows "gop_history K (cs @ [Ingest p]) g"
proof (cases "g = []")
  case True
  then show ?thesis by (simp add: gop_history_def)
next
  case False
  with assms(1) obtain pre k post where h: "cs = pre @ Ingest k # post" "keyframe_packet K k"
      "ResetCall \<notin> set post" "\<forall>q\<in>set (ingested post). \<not> keyframe_packet K q"
      "g = k # filter (plain_packet K) (ingested post)"
    unfolding gop_history_def by blast
  have "cs @ [Ingest p] = pre @ Ingest k # (post @ [Ingest p])" using h(1) by simp
  moreover have "ResetCall \<notin> set (post @ [Ingest p])" using h(3) by simp
  moreover have "\<forall>q\<in>set (ingested (post @ [Ingest p])). \<not> keyframe_packet K q"
    using h(4) assms(2) by (simp add: ingested_append)
  moreover have "g = k # filter (plain_packet K) (ingested (post @ [Ingest p]))"
    using h(5) assms(3) by (simp add: ingested_append)
  ultimately show ?thesis unfolding gop_history_def using h(2) by blast
qed

lemma gop_history_append:
  assumes "gop_history K cs g" and "g \<noteq> []" and "plain_packet K p"
  shows "gop_history K (cs @ [Ingest p]) (g @ [p])"
proof -
  from assms(1,2) obtain pre k post where h: "cs = pre @ Ingest k # post" "keyframe_packet K k"
      "ResetCall \<notin> set post" "\<forall>q\<in>set (ingested post). \<not> keyframe_packet K q"
      "g = k # filter (plain_packet K) (ingested post)"
    unfolding gop_history_def by blast
  have "cs @ [Ingest p] = pre @ Ingest k # (post @ [Ingest p])" using h(1) by simp
  moreover have "ResetCall \<notin> set (post @ [Ingest p])" using h(3) by simp
  moreover have "\<forall>q\<in>set (ingested (post @ [Ingest p])). \<not> keyframe_packet K q"
    using h(4) assms(3) packet_kinds(2) by (simp add: ingested_append)
  moreover have "g @ [p] = k # filter (plain_packet K) (ingested (post @ [Ingest p]))"
    using h(5) assms(3) by (simp add: ingested_append)
  ultimately show ?thesis unfolding gop_history_def using h(2) by blast
qed

lemma cache_inv_exec: "cache_inv K b cs (exec K (NewHevcCache b) cs)"
proof (induction cs rule: rev_induct)
  case Nil
  show ?case
    by (simp add: cache_inv_def exec_def NewHevcCache_def gop_history_def opt_list_def)
next
  case (snoc x cs)
  define c where "c = exec K (NewHevcCache b) cs"
  have inv: "cacheGop c = b" "\<not> b \<Longrightarrow> gop c = []" "gop_history K cs (gop c)"
    "\<forall>q\<in>set (gop c). keyframe_packet K q \<or> plain_packet K q"
    "\<forall>q\<in>set (opt_list (vps c) @ opt_list (sps c) @ opt_list (pps c)). param_packet K q"
    using snoc.IH unfolding c_def cache_inv_def by blast+
  have goal: "cache_inv K b (cs @ [x]) (apply_call K c x)"
  proof (cases x)
    case ResetCall
    then show ?thesis using inv(1)
      by (simp add: cache_inv_def Reset_def gop_history_def opt_list_def)
  next
    case (Ingest p)
    show ?thesis
    proof (cases rule: apply_Ingest_cases [of K p c])
      case ignored
      then show ?thesis unfolding Ingest cache_inv_def
        using inv gop_history_skip [OF inv(3), of p] by simp
    next
      case param
      have skip: "gop_history K (cs @ [Ingest p]) (gop c)"
        using gop_history_skip [OF inv(3), of p] param(1) packet_kinds by blast
      from param(2) show ?thesis unfolding Ingest cache_inv_def
        using inv skip param(1) by (auto simp: opt_list_def split: option.splits)
    next
      case key
      show ?thesis
      proof (cases b)
        case True
        then show ?thesis unfolding Ingest cache_inv_def
          using inv key gop_history_start [OF key(1), of cs] by simp
      next
        case False
        then have "gop c = []" using inv(2) by simp
        then show ?thesis unfolding Ingest cache_inv_def
          using inv key False by (simp add: gop_history_def)
      qed
    next
      case plain
      show ?thesis
      proof (cases "cacheGop c \<and> gop c \<noteq> []")
        case True
        then show ?thesis unfolding Ingest cache_inv_def
          using inv plain gop_history_append [OF inv(3) _ plain(1)] by simp
      next
        case False
        then have "gop c = []" using inv(1,2) by auto
        then show ?thesis unfolding Ingest cache_inv_def
          using inv plain False by (simp add: gop_history_def)
      qed
    qed
  qed
  then show ?case by (simp add: exec_snoc c_def)
qed

subsection \<open>The example packets\<close>

lemma std_ok: "codes_ok hevc_std"
  by (simp add: codes_ok_def hevc_std_def)

lemma ex_types:
  "hdr_type 0x26 = 19" "hdr_type 0x02 = 1" "hdr_type 0x40 = 32" "hdr_type 0x42 = 33"
  "hdr_type 0x44 = 34" "hdr_type 0x60 = 48" "hdr_type 0x62 = 49"
  by (simp_all add: hdr_type_def)

lemma ex_single:
  "getPalyloadType hevc_std (Payload ex_idr) = Inr (False, False, False, True)"
  "getPalyloadType hevc_std (Payload ex_trail) = Inr (False, False, False, False)"
  "getPalyloadType hevc_std (Payload ex_vps) = Inr (True, False, False, False)"
  "getPalyloadType hevc_std (Payload ex_sps) = Inr (False, True, False, False)"
  "getPalyloadType hevc_std (Payload ex_pps) = Inr (False, False, True, False)"
  "getPalyloadType hevc_std (Payload ex_short) = Inr (False, False, False, False)"
  by (simp_all add: getPalyloadType_def ex_types nalType_def hevc_std_def word_le_nat_alt
        ex_idr_def ex_trail_def ex_vps_def ex_sps_def ex_pps_def ex_short_def)

lemma ex_len16: "len16 3 = [0, 3]"
  by (simp add: len16_def)

lemma ex_units_ok: "unit_ok [a, b, c]"
  by (simp add: unit_ok_def)

lemma ex_ap:
  "getPalyloadType hevc_std (Payload ex_ap_vps_sps_idr) = Inr (True, True, False, True)"
  "getPalyloadType hevc_std (Payload ex_ap_vps_sps) = Inr (True, True, False, False)"
  "getPalyloadType hevc_std (Payload ex_ap_sps_idr) = Inr (False, True, False, True)"
  unfolding ex_ap_vps_sps_idr_def ex_ap_vps_sps_def ex_ap_sps_idr_def packet.simps
  by (subst getPalyloadType_aggregation;
      simp add: ex_units_ok unit_type_def ex_types nalType_def hevc_std_def word_le_nat_alt)+

lemma ex_channel:
  "Channel ex_idr = ChannelVideo hevc_std" "Channel ex_trail = ChannelVideo hevc_std"
  "Channel ex_vps = ChannelVideo hevc_std" "Channel ex_sps = ChannelVideo hevc_std"
  "Channel ex_pps = ChannelVideo hevc_std" "Channel ex_short = ChannelVideo hevc_std"
  by (simp_all add: hevc_std_def ex_idr_def ex_trail_def ex_vps_def ex_sps_def ex_pps_def
        ex_short_def)

lemma ex_apply:
  "apply_call hevc_std c (Ingest ex_idr) = (if cacheGop c then c\<lparr>gop := [ex_idr]\<rparr> else c)"
  "apply_call hevc_std c (Ingest ex_trail) =
     (if cacheGop c \<and> gop c \<noteq> [] then c\<lparr>gop := gop c @ [ex_trail]\<rparr> else c)"
  "apply_call hevc_std c (Ingest ex_vps) = c\<lparr>vps := Some ex_vps\<rparr>"
  "apply_call hevc_std c (Ingest ex_sps) = c\<lparr>sps := Some ex_sps\<rparr>"
  "apply_call hevc_std c (Ingest ex_pps) = c\<lparr>pps := Some ex_pps\<rparr>"
  "apply_call hevc_std c ResetCall = Reset c"
  by (simp_all add: CachePack_flags [OF ex_channel(1) ex_single(1)]
        CachePack_flags [OF ex_channel(2) ex_single(2)]
        CachePack_flags [OF ex_channel(3) ex_single(3)]
        CachePack_flags [OF ex_channel(4) ex_single(4)]
        CachePack_flags [OF ex_channel(5) ex_single(5)])

lemma CachePack_plain:
  assumes "Channel p = ChannelVideo K"
    and "getPalyloadType K (Payload p) = Inr (False, False, False, False)"
  shows "CachePack K c p =
           Inr (if cacheGop c \<and> gop c \<noteq> [] then c\<lparr>gop := gop c @ [p]\<rparr> else c, False)"
  using CachePack_flags [OF assms, of c] by simp


section \<open>The claims\<close>

text \<open>
  C1. The claim: an aggregation payload, however malformed, never makes
  \<^verbatim>\<open>CachePack\<close> fail. The source does not hold it: the loop reads
  \<^verbatim>\<open>payload[off+1]\<close> with \<^verbatim>\<open>off = 2\<close> on a payload of three bytes, which is an
  index out of range. Stated here: every video packet whose payload has three bytes
  and the aggregation type makes \<^verbatim>\<open>CachePack\<close> panic.
\<close>

theorem truncated_aggregation_panics:
  assumes "Channel p = ChannelVideo K" and "length (Payload p) = 3"
    and "hdr_type (Payload p ! 0) = NalStapInRtp K"
  shows "CachePack K c p = Inl IndexOutOfRange"
proof -
  have "stap_loop K (Payload p) 2 (False, False, False, False) = Inl IndexOutOfRange"
    using assms(2) by (subst stap_loop.simps) simp
  then show ?thesis using assms by (simp add: CachePack_def getPalyloadType_def)
qed

theorem truncated_aggregation_panics_witness:
  "Channel ex_ap_cut = ChannelVideo hevc_std \<and> length (Payload ex_ap_cut) = 3 \<and>
   hdr_type (Payload ex_ap_cut ! 0) = NalStapInRtp hevc_std \<and>
   CachePack hevc_std (NewHevcCache True) ex_ap_cut = Inl IndexOutOfRange"
proof -
  have 1: "Channel ex_ap_cut = ChannelVideo hevc_std" by (simp add: ex_ap_cut_def hevc_std_def)
  have 2: "length (Payload ex_ap_cut) = 3" by (simp add: ex_ap_cut_def)
  have 3: "hdr_type (Payload ex_ap_cut ! 0) = NalStapInRtp hevc_std"
    by (simp add: ex_ap_cut_def ex_types hevc_std_def)
  show ?thesis
    using 1 2 3 truncated_aggregation_panics [OF 1 2 3, of "NewHevcCache True"] by simp
qed

text \<open>
  C2. With GOP caching enabled, a video packet that is not classified as a parameter
  set and is a keyframe empties the buffer and becomes its only element; one that is
  not a keyframe is appended when the buffer is non-empty and leaves an empty buffer
  empty.
\<close>

theorem CachePack_gop_rule:
  assumes "cacheGop c" and "Channel p = ChannelVideo K"
    and "getPalyloadType K (Payload p) = Inr (False, False, False, i)"
  shows "CachePack K c p =
     Inr (c\<lparr>gop := (if i then [p] else if gop c = [] then [] else gop c @ [p])\<rparr>, i)"
  using CachePack_flags [OF assms(2,3), of c] assms(1) by auto

theorem CachePack_gop_rule_witness:
  "cacheGop (NewHevcCache True) \<and> Channel ex_idr = ChannelVideo hevc_std \<and>
   getPalyloadType hevc_std (Payload ex_idr) = Inr (False, False, False, True) \<and>
   getPalyloadType hevc_std (Payload ex_trail) = Inr (False, False, False, False) \<and>
   CachePack hevc_std (NewHevcCache True) ex_trail = Inr (NewHevcCache True, False) \<and>
   CachePack hevc_std (NewHevcCache True) ex_idr =
     Inr ((NewHevcCache True)\<lparr>gop := [ex_idr]\<rparr>, True) \<and>
   CachePack hevc_std ((NewHevcCache True)\<lparr>gop := [ex_idr]\<rparr>) ex_trail =
     Inr ((NewHevcCache True)\<lparr>gop := [ex_idr, ex_trail]\<rparr>, False) \<and>
   CachePack hevc_std ((NewHevcCache True)\<lparr>gop := [ex_idr, ex_trail]\<rparr>) ex_idr =
     Inr ((NewHevcCache True)\<lparr>gop := [ex_idr]\<rparr>, True)"
proof -
  have 1: "cacheGop (NewHevcCache True)" "cacheGop ((NewHevcCache True)\<lparr>gop := g\<rparr>)" for g
    by (simp_all add: NewHevcCache_def)
  have e: "gop (NewHevcCache True) = []" by (simp add: NewHevcCache_def)
  show ?thesis
    using 1(1) e ex_channel(1) ex_single(1,2)
      CachePack_gop_rule [OF 1(1) ex_channel(2) ex_single(2)]
      CachePack_gop_rule [OF 1(1) ex_channel(1) ex_single(1)]
      CachePack_gop_rule [OF 1(2) ex_channel(2) ex_single(2), of "[ex_idr]"]
      CachePack_gop_rule [OF 1(2) ex_channel(1) ex_single(1), of "[ex_idr, ex_trail]"]
    by simp
qed



text \<open>
  C4. In every state reached from a fresh cache by calls of \<^verbatim>\<open>CachePack\<close> and
  \<^verbatim>\<open>Reset\<close>, the GOP buffer is empty, or its first element is the packet of the
  latest call answered as a keyframe, no reset came since, and behind it stand the
  plain video packets ingested since then, in arrival order. No packet classified as
  a parameter set is in the buffer, and every packet in a parameter-set slot is
  classified as a parameter set and is not in the buffer.
\<close>

theorem gop_buffer_invariant:
  assumes "c = exec K (NewHevcCache b) calls"
  shows "(gop c = [] \<or>
          (\<exists>pre k post. calls = pre @ Ingest k # post \<and> keyframe_packet K k \<and>
             ResetCall \<notin> set post \<and> (\<forall>q\<in>set (ingested post). \<not> keyframe_packet K q) \<and>
             gop c = k # filter (plain_packet K) (ingested post))) \<and>
         (\<forall>q\<in>set (gop c). \<not> param_packet K q) \<and>
         (\<forall>q\<in>set (opt_list (vps c) @ opt_list (sps c) @ opt_list (pps c)).
            param_packet K q \<and> q \<notin> set (gop c))"
proof -
  have inv: "gop_history K calls (gop c)"
    "\<forall>q\<in>set (gop c). keyframe_packet K q \<or> plain_packet K q"
    "\<forall>q\<in>set (opt_list (vps c) @ opt_list (sps c) @ opt_list (pps c)). param_packet K q"
    using cache_inv_exec [of K b calls] unfolding assms cache_inv_def by blast+
  have 1: "\<forall>q\<in>set (gop c). \<not> param_packet K q"
    using inv(2) packet_kinds by blast
  have 2: "\<forall>q\<in>set (opt_list (vps c) @ opt_list (sps c) @ opt_list (pps c)).
             param_packet K q \<and> q \<notin> set (gop c)"
    using inv(3) 1 by blast
  show ?thesis using inv(1) 1 2 unfolding gop_history_def by blast
qed

theorem gop_buffer_invariant_witness:
  "gop (exec hevc_std (NewHevcCache True)
          [Ingest ex_trail, Ingest ex_idr, Ingest ex_trail, Ingest ex_sps, ResetCall,
           Ingest ex_vps, Ingest ex_idr, Ingest ex_pps, Ingest ex_trail]) = [ex_idr, ex_trail] \<and>
   (\<exists>pre k post.
      [Ingest ex_trail, Ingest ex_idr, Ingest ex_trail, Ingest ex_sps, ResetCall,
       Ingest ex_vps, Ingest ex_idr, Ingest ex_pps, Ingest ex_trail] = pre @ Ingest k # post \<and>
      keyframe_packet hevc_std k \<and> ResetCall \<notin> set post \<and>
      (\<forall>q\<in>set (ingested post). \<not> keyframe_packet hevc_std q) \<and>
      [ex_idr, ex_trail] = k # filter (plain_packet hevc_std) (ingested post))"
proof -
  let ?calls = "[Ingest ex_trail, Ingest ex_idr, Ingest ex_trail, Ingest ex_sps, ResetCall,
                 Ingest ex_vps, Ingest ex_idr, Ingest ex_pps, Ingest ex_trail]"
  have g: "gop (exec hevc_std (NewHevcCache True) ?calls) = [ex_idr, ex_trail]"
    by (simp add: exec_def ex_apply NewHevcCache_def Reset_def del: apply_call.simps)
  show ?thesis
    using gop_buffer_invariant [OF refl, of hevc_std True ?calls] unfolding g by simp
qed




text \<open>
  C6. For a video packet whose payload has at least three bytes and whose type field
  (bits 1 to 6 of the first byte) is neither wrapper code: if the type is the VPS, SPS
  or PPS code, \<^verbatim>\<open>CachePack\<close> returns \<open>false\<close> and writes exactly that slot; if the
  type lies in the closed keyframe range, it returns \<open>true\<close>.
\<close>

theorem single_unit:
  assumes "codes_ok K" and "Channel p = ChannelVideo K" and "3 \<le> length (Payload p)"
    and "hdr_type (Payload p ! 0) \<noteq> NalStapInRtp K"
    and "hdr_type (Payload p ! 0) \<noteq> NalFuInRtp K"
  shows "(hdr_type (Payload p ! 0) = NalVps K \<longrightarrow>
            CachePack K c p = Inr (c\<lparr>vps := Some p\<rparr>, False)) \<and>
         (hdr_type (Payload p ! 0) = NalSps K \<longrightarrow>
            CachePack K c p = Inr (c\<lparr>sps := Some p\<rparr>, False)) \<and>
         (hdr_type (Payload p ! 0) = NalPps K \<longrightarrow>
            CachePack K c p = Inr (c\<lparr>pps := Some p\<rparr>, False)) \<and>
         (keyframe_type K (hdr_type (Payload p ! 0)) \<longrightarrow>
            CachePack K c p = Inr (if cacheGop c then c\<lparr>gop := [p]\<rparr> else c, True))"
proof -
  define t where "t = hdr_type (Payload p ! 0)"
  have g: "getPalyloadType K (Payload p) =
             Inr (t = NalVps K, t = NalSps K, t = NalPps K, keyframe_type K t)"
    using assms(3-5) by (simp add: getPalyloadType_def nalType_single [OF assms(1)] t_def)
  note cp = CachePack_flags [OF assms(2) g, of c]
  have 1: "t = NalVps K \<Longrightarrow> CachePack K c p = Inr (c\<lparr>vps := Some p\<rparr>, False)"
    using cp by simp
  have 2: "t = NalSps K \<Longrightarrow> CachePack K c p = Inr (c\<lparr>sps := Some p\<rparr>, False)"
    using cp codes_exclusive(2) [OF assms(1), of t] by simp
  have 3: "t = NalPps K \<Longrightarrow> CachePack K c p = Inr (c\<lparr>pps := Some p\<rparr>, False)"
    using cp codes_exclusive(3) [OF assms(1), of t] by simp
  have 4: "keyframe_type K t \<Longrightarrow>
      CachePack K c p = Inr (if cacheGop c then c\<lparr>gop := [p]\<rparr> else c, True)"
    using cp codes_exclusive(4) [OF assms(1), of t] by simp
  show ?thesis using 1 2 3 4 unfolding t_def by blast
qed

theorem single_unit_witness:
  "codes_ok hevc_std \<and> Channel ex_sps = ChannelVideo hevc_std \<and> 3 \<le> length (Payload ex_sps) \<and>
   hdr_type (Payload ex_sps ! 0) = NalSps hevc_std \<and>
   CachePack hevc_std (NewHevcCache True) ex_sps = Inr ((NewHevcCache True)\<lparr>sps := Some ex_sps\<rparr>, False) \<and>
   Channel ex_idr = ChannelVideo hevc_std \<and> 3 \<le> length (Payload ex_idr) \<and>
   keyframe_type hevc_std (hdr_type (Payload ex_idr ! 0)) \<and>
   CachePack hevc_std (NewHevcCache False) ex_idr = Inr (NewHevcCache False, True)"
proof -
  have s: "3 \<le> length (Payload ex_sps)" "hdr_type (Payload ex_sps ! 0) = NalSps hevc_std"
    "hdr_type (Payload ex_sps ! 0) \<noteq> NalStapInRtp hevc_std"
    "hdr_type (Payload ex_sps ! 0) \<noteq> NalFuInRtp hevc_std"
    by (simp_all add: ex_sps_def ex_types hevc_std_def)
  have i: "3 \<le> length (Payload ex_idr)" "keyframe_type hevc_std (hdr_type (Payload ex_idr ! 0))"
    "hdr_type (Payload ex_idr ! 0) \<noteq> NalStapInRtp hevc_std"
    "hdr_type (Payload ex_idr ! 0) \<noteq> NalFuInRtp hevc_std"
    by (simp_all add: ex_idr_def ex_types hevc_std_def keyframe_type_def)
  have n: "\<not> cacheGop (NewHevcCache False)" by (simp add: NewHevcCache_def)
  show ?thesis
    using std_ok ex_channel(1,4) s(1,2) i(1,2) n
      single_unit [OF std_ok ex_channel(4) s(1,3,4), of "NewHevcCache True"]
      single_unit [OF std_ok ex_channel(1) i(1,3,4), of "NewHevcCache False"]
    by simp
qed

text \<open>
  C7. For a video packet whose payload is a fragmentation unit (at least three bytes,
  fragmentation type in the first byte) with bit 7 of the third byte clear, no
  classification flag is set, no slot is written, the packet is appended to the GOP
  buffer exactly when GOP caching is enabled and the buffer is non-empty, and
  \<^verbatim>\<open>CachePack\<close> returns \<open>false\<close>, whatever the type field in the third byte.
\<close>

theorem fu_not_start:
  assumes "Channel p = ChannelVideo K" and "3 \<le> length (Payload p)"
    and "hdr_type (Payload p ! 0) = NalFuInRtp K" and "NalStapInRtp K \<noteq> NalFuInRtp K"
    and "\<not> bit (Payload p ! 2) 7"
  shows "getPalyloadType K (Payload p) = Inr (False, False, False, False) \<and>
         CachePack K c p =
           Inr (if cacheGop c \<and> gop c \<noteq> [] then c\<lparr>gop := gop c @ [p]\<rparr> else c, False)"
proof -
  have g: "getPalyloadType K (Payload p) = Inr (False, False, False, False)"
    using assms by (simp add: getPalyloadType_def start_bit)
  show ?thesis using CachePack_plain [OF assms(1) g, of c] g by simp
qed

theorem fu_not_start_witness:
  "Channel ex_fu_cont = ChannelVideo hevc_std \<and> 3 \<le> length (Payload ex_fu_cont) \<and>
   hdr_type (Payload ex_fu_cont ! 0) = NalFuInRtp hevc_std \<and>
   NalStapInRtp hevc_std \<noteq> NalFuInRtp hevc_std \<and> \<not> bit (Payload ex_fu_cont ! 2) 7 \<and>
   Payload ex_fu_cont ! 2 AND 0x3f = 19 \<and>
   CachePack hevc_std (NewHevcCache True) ex_fu_cont = Inr (NewHevcCache True, False)"
proof -
  have 1: "Channel ex_fu_cont = ChannelVideo hevc_std" by (simp add: ex_fu_cont_def hevc_std_def)
  have 2: "3 \<le> length (Payload ex_fu_cont)" by (simp add: ex_fu_cont_def)
  have 3: "hdr_type (Payload ex_fu_cont ! 0) = NalFuInRtp hevc_std"
    by (simp add: ex_fu_cont_def ex_types hevc_std_def)
  have 4: "NalStapInRtp hevc_std \<noteq> NalFuInRtp hevc_std" by (simp add: hevc_std_def)
  have 5: "\<not> bit (Payload ex_fu_cont ! 2) 7" by (simp add: ex_fu_cont_def)
  have 6: "Payload ex_fu_cont ! 2 AND 0x3f = 19" by (simp add: ex_fu_cont_def)
  have e: "gop (NewHevcCache True) = []" by (simp add: NewHevcCache_def)
  show ?thesis
    using 1 2 3 4 5 6 e fu_not_start [OF 1 2 3 4 5, of "NewHevcCache True"] by simp
qed



text \<open>
  C9, as amended. For a video packet whose payload has fewer than three bytes,
  \<^verbatim>\<open>CachePack\<close> sets no classification flag, writes no parameter-set slot, does not
  fail and returns \<open>false\<close>; the packet is appended to the GOP buffer when GOP caching
  is enabled and the buffer is non-empty, and the cache is unchanged otherwise.
\<close>

theorem short_payload:
  assumes "Channel p = ChannelVideo K" and "length (Payload p) < 3"
  shows "getPalyloadType K (Payload p) = Inr (False, False, False, False) \<and>
         CachePack K c p =
           Inr (if cacheGop c \<and> gop c \<noteq> [] then c\<lparr>gop := gop c @ [p]\<rparr> else c, False)"
proof -
  have g: "getPalyloadType K (Payload p) = Inr (False, False, False, False)"
    using assms(2) by (simp add: getPalyloadType_def)
  show ?thesis using CachePack_plain [OF assms(1) g, of c] g by simp
qed

theorem short_payload_witness:
  "Channel ex_short = ChannelVideo hevc_std \<and> length (Payload ex_short) < 3 \<and>
   CachePack hevc_std (NewHevcCache True) ex_short = Inr (NewHevcCache True, False)"
proof -
  have 2: "length (Payload ex_short) < 3" by (simp add: ex_short_def)
  have e: "gop (NewHevcCache True) = []" by (simp add: NewHevcCache_def)
  show ?thesis
    using ex_channel(6) 2 e short_payload [OF ex_channel(6) 2, of "NewHevcCache True"] by simp
qed

text \<open>
  C9, as stated, fails once a keyframe has been cached: the packet with the short
  payload is appended to the GOP buffer, so the cached state changes.
\<close>

theorem short_payload_counterexample:
  "Channel ex_short = ChannelVideo hevc_std \<and> length (Payload ex_short) < 3 \<and>
   exec hevc_std (NewHevcCache True) [Ingest ex_idr] = (NewHevcCache True)\<lparr>gop := [ex_idr]\<rparr> \<and>
   CachePack hevc_std ((NewHevcCache True)\<lparr>gop := [ex_idr]\<rparr>) ex_short =
     Inr ((NewHevcCache True)\<lparr>gop := [ex_idr, ex_short]\<rparr>, False) \<and>
   CachePack hevc_std ((NewHevcCache True)\<lparr>gop := [ex_idr]\<rparr>) ex_short \<noteq>
     Inr ((NewHevcCache True)\<lparr>gop := [ex_idr]\<rparr>, False)"
proof -
  have 2: "length (Payload ex_short) < 3" by (simp add: ex_short_def)
  have e: "exec hevc_std (NewHevcCache True) [Ingest ex_idr] = (NewHevcCache True)\<lparr>gop := [ex_idr]\<rparr>"
    by (simp add: exec_def ex_apply NewHevcCache_def del: apply_call.simps)
  have r: "CachePack hevc_std ((NewHevcCache True)\<lparr>gop := [ex_idr]\<rparr>) ex_short =
     Inr ((NewHevcCache True)\<lparr>gop := [ex_idr, ex_short]\<rparr>, False)"
    using CachePack_plain [OF ex_channel(6) ex_single(6), of "(NewHevcCache True)\<lparr>gop := [ex_idr]\<rparr>"]
    by (simp add: NewHevcCache_def)
  have d: "(NewHevcCache True)\<lparr>gop := [ex_idr, ex_short]\<rparr> \<noteq> (NewHevcCache True)\<lparr>gop := [ex_idr]\<rparr>"
    by (simp add: NewHevcCache_def)
  show ?thesis using ex_channel(6) 2 e r d by simp
qed

text \<open>
  C10. For a video packet that the classification flags with more than one
  parameter-set kind, \<^verbatim>\<open>CachePack\<close> writes one slot only, the first flagged in the
  order VPS, SPS, PPS, leaves the other slots and the GOP buffer as they are, and
  returns \<open>false\<close>.
\<close>

theorem param_precedence:
  assumes "Channel p = ChannelVideo K"
    and "getPalyloadType K (Payload p) = Inr (v, s, pp, i)"
    and "(v \<and> s) \<or> (v \<and> pp) \<or> (s \<and> pp)"
  shows "CachePack K c p = Inr (if v then c\<lparr>vps := Some p\<rparr> else c\<lparr>sps := Some p\<rparr>, False)"
  using assms(3) CachePack_flags [OF assms(1,2), of c] by auto

theorem param_precedence_witness:
  "Channel ex_ap_vps_sps = ChannelVideo hevc_std \<and>
   getPalyloadType hevc_std (Payload ex_ap_vps_sps) = Inr (True, True, False, False) \<and>
   CachePack hevc_std (NewHevcCache True) ex_ap_vps_sps =
     Inr ((NewHevcCache True)\<lparr>vps := Some ex_ap_vps_sps\<rparr>, False) \<and>
   sps ((NewHevcCache True)\<lparr>vps := Some ex_ap_vps_sps\<rparr>) = None"
proof -
  have 1: "Channel ex_ap_vps_sps = ChannelVideo hevc_std"
    by (simp add: ex_ap_vps_sps_def hevc_std_def)
  have n: "sps ((NewHevcCache True)\<lparr>vps := Some ex_ap_vps_sps\<rparr>) = None"
    by (simp add: NewHevcCache_def)
  show ?thesis
    using 1 ex_ap(2) n param_precedence [OF 1 ex_ap(2), of "NewHevcCache True"] by simp
qed

end
